theory Spec2Isabelle
  imports Main "HOL-Library.Multiset" "HOL-Library.AList"
begin

section \<open>The menu forest (MenuParser.ts, lines 3-12)\<close>

text \<open>
  The TypeScript declares
  \<^verbatim>\<open>type Menu = { name: string, children: (Menu|MenuItem)[] }\<close> and
  \<^verbatim>\<open>type MenuItem = { name: string, command: string, plugin: PluginInfo }\<close>.
  The two shapes are the two constructors of one datatype. \<open>PluginInfo\<close> is declared
  outside the files at hand and is only stored and compared here, so it is the type
  parameter \<open>'p\<close>.

  An Isabelle name cannot start with an underscore: \<open>_menus\<close>, \<open>_isMenu\<close>,
  \<open>_registerMenu\<close>, \<open>_registerMenuItem\<close>, \<open>_unregisterMenu\<close>, \<open>_getError\<close> and
  \<open>_menuForEach\<close> appear without it. The manager's field takes the name \<open>menus\<close>, so
  the parameter \<open>menus\<close> of the parser's functions is written \<open>menus'\<close>.
\<close>

datatype 'p node =
    Menu string "'p node list"
  | MenuItem string string 'p

fun name :: "'p node \<Rightarrow> string" where
  "name (Menu n cs) = n"
| "name (MenuItem n c p) = n"

text \<open>
  What the code can throw. \<open>parse\<close> throws \<^verbatim>\<open>new Error(message)\<close>; everything
  else that can go wrong is a \<open>TypeError\<close> of the language itself (iterating a value
  that is not iterable, reading a property of \<open>null\<close>, calling what is not a function).
\<close>

datatype error = Error string | TypeError

section \<open>MenuManager.ts\<close>

text \<open>The class has one field, \<open>_menus\<close>, set to the empty array by the constructor.\<close>

record 'p MenuManager =
  menus :: "'p node list"

definition newMenuManager :: "'p MenuManager" where
  "newMenuManager = \<lparr>menus = []\<rparr>"

text \<open>
  \<open>_isMenu(itm)\<close> is \<^verbatim>\<open>!!(itm as Menu).children\<close>: an array, empty or not, is truthy, and
  a MenuItem has no \<open>children\<close> property.
\<close>

fun isMenu :: "'p node \<Rightarrow> bool" where
  "isMenu (Menu n cs) = True"
| "isMenu (MenuItem n c p) = False"

text \<open>
  The first loop of \<open>_registerMenu\<close> (lines 54-61) walks \<open>existing_menus\<close> from the left and
  stops at the first element that is a Menu and carries the wanted name. The source keeps
  a reference to that element and later pushes into its \<open>children\<close> array in place. Here
  the position of the element is kept instead: the siblings before it, its children, and
  the siblings after it. \<open>None\<close> is the source's \<open>found_menu === null\<close>.
\<close>

fun findMenu :: "'p node list \<Rightarrow> string \<Rightarrow> ('p node list \<times> 'p node list \<times> 'p node list) option" where
  "findMenu [] n = None"
| "findMenu (Menu n' kids # rest) n =
     (if n' = n then Some ([], kids, rest)
      else map_option (\<lambda>(pre, k, suf). (Menu n' kids # pre, k, suf)) (findMenu rest n))"
| "findMenu (MenuItem n' c p # rest) n =
     map_option (\<lambda>(pre, k, suf). (MenuItem n' c p # pre, k, suf)) (findMenu rest n)"

text \<open>
  \<open>_registerMenuItem\<close> (lines 88-102). The loop sets \<open>found\<close> when some existing element
  satisfies \<^verbatim>\<open>itm.name === new_item.name && !MenuManager._isMenu(new_item)\<close>; the test
  of the variant is made on \<open>new_item\<close>, as the source has it. The result is the sibling
  list after the call and what the call wrote with \<open>console.error\<close>.
\<close>

definition registerMenuItem :: "'p node list \<Rightarrow> 'p node \<Rightarrow> 'p node list \<times> string list" where
  "registerMenuItem existing_menus new_item =
     (if list_ex (\<lambda>itm. name itm = name new_item \<and> \<not> isMenu new_item) existing_menus
      then (existing_menus, [''Menu item already registered''])
      else (existing_menus @ [new_item], []))"

text \<open>
  \<open>_registerMenu\<close> (lines 52-80) and its second loop, \<open>mergeChildren\<close> (lines 72-79), which
  registers each child of \<open>new_item\<close> into the children of the found (or new) Menu. A call
  yields the sibling list after the call, the lines written to the console, and the
  exception it ended with, if any.

  The parameter is typed \<open>Menu\<close>, but nothing is checked at run time. Called with a
  MenuItem, the code still searches, still pushes a new empty Menu when none is found,
  and then throws on \<^verbatim>\<open>for (let m of new_item.children)\<close>, since \<open>undefined\<close> is not
  iterable. An exception leaves the loop it is thrown in.

  The incoming node is only read, and a pushed MenuItem is never written to afterwards,
  so the forest is a value here. That is the source's behaviour as long as the incoming
  node is not itself part of the manager's own forest.
\<close>

fun registerMenu :: "'p node list \<Rightarrow> 'p node \<Rightarrow> 'p node list \<times> string list \<times> error option"
and mergeChildren :: "'p node list \<Rightarrow> 'p node list \<Rightarrow> 'p node list \<times> string list \<times> error option" where
  "registerMenu existing_menus (Menu n cs) =
     (case findMenu existing_menus n of
        Some (pre, kids, suf) \<Rightarrow>
          (case mergeChildren kids cs of
             (kids', out, e) \<Rightarrow> (pre @ Menu n kids' # suf, out, e))
      | None \<Rightarrow>
          (case mergeChildren [] cs of
             (kids', out, e) \<Rightarrow> (existing_menus @ [Menu n kids'], out, e)))"
| "registerMenu existing_menus (MenuItem n c p) =
     (case findMenu existing_menus n of
        Some (pre, kids, suf) \<Rightarrow> (existing_menus, [], Some TypeError)
      | None \<Rightarrow> (existing_menus @ [Menu n []], [], Some TypeError))"
| "mergeChildren kids [] = (kids, [], None)"
| "mergeChildren kids (m # ms) =
     (case (if isMenu m then registerMenu kids m
            else (case registerMenuItem kids m of (kids1, out1) \<Rightarrow> (kids1, out1, None))) of
        (kids1, out1, e1) \<Rightarrow>
          (case e1 of
             Some e \<Rightarrow> (kids1, out1, Some e)
           | None \<Rightarrow>
               (case mergeChildren kids1 ms of
                  (kids2, out2, e2) \<Rightarrow> (kids2, out1 @ out2, e2))))"

text \<open>\<open>register\<close> (lines 24-26) runs \<open>_registerMenu\<close> on the manager's own list.\<close>

definition register :: "'p MenuManager \<Rightarrow> 'p node \<Rightarrow> 'p MenuManager \<times> string list \<times> error option" where
  "register this menu =
     (case registerMenu (menus this) menu of
        (ms, out, e) \<Rightarrow> (this\<lparr>menus := ms\<rparr>, out, e))"

text \<open>
  \<open>_unregisterMenu\<close> (lines 110-112) has a comment for a body
  (\<^verbatim>\<open>//TODO: Unregister menus\<close>), and \<open>unregister\<close> (lines 32-34) calls it on the
  manager's list.
\<close>

definition unregisterMenu :: "'p node list \<Rightarrow> 'p node \<Rightarrow> 'p node list" where
  "unregisterMenu existing_menus new_item = existing_menus"

definition unregister :: "'p MenuManager \<Rightarrow> 'p node \<Rightarrow> 'p MenuManager" where
  "unregister this menu = this\<lparr>menus := unregisterMenu (menus this) menu\<rparr>"

text \<open>
  Modelled from the spec: the caller that hands a parsed forest to the manager is not
  among the files at hand. \<open>register\<close> takes one Menu; a forest is registered "one
  top-level node at a time" (spec 4.2), so \<open>registerForest\<close> calls \<open>register\<close> on each
  top-level node from left to right, and an exception thrown by a call ends the loop.
\<close>

fun registerForest :: "'p MenuManager \<Rightarrow> 'p node list \<Rightarrow> 'p MenuManager \<times> string list \<times> error option" where
  "registerForest this [] = (this, [], None)"
| "registerForest this (m # ms) =
     (case register this m of
        (this1, out1, e1) \<Rightarrow>
          (case e1 of
             Some e \<Rightarrow> (this1, out1, Some e)
           | None \<Rightarrow>
               (case registerForest this1 ms of
                  (this2, out2, e2) \<Rightarrow> (this2, out1 @ out2, e2))))"

section \<open>MenuParser.ts\<close>

text \<open>
  \<open>parse\<close> works on whatever \<^verbatim>\<open>JSON.parse\<close> returns: the annotation \<open>Menu[]\<close> is not
  checked at run time. So the parser is modelled on JSON values, with the language's
  own rules for reading a property, for truthiness and for iteration.

  \<^item> A number is kept as an integer: the code only ever asks whether it is zero.
  \<^item> A string is a list of characters, each a code unit below 256.
  \<^item> An object is the list of its properties in order, each key once.
  \<^item> \<open>JRef\<close> is a reference to an object of the host, here the \<open>PluginInfo\<close> that
    \<open>parse\<close> stores in every MenuItem. \<^verbatim>\<open>JSON.parse\<close> never returns one.
\<close>

datatype 'p jsval =
    JNull
  | JBool bool
  | JNum int
  | JStr string
  | JArr "'p jsval list"
  | JObj "(string \<times> 'p jsval) list"
  | JRef 'p

text \<open>
  Reading \<open>m.children\<close>, \<open>m.name\<close> or \<open>m.command\<close>: on \<open>null\<close> it throws; on an object
  it is the property or \<open>undefined\<close> (\<open>None\<close>); a boolean, a number, a string and an
  array have no property of these names.
\<close>

fun getProp :: "'p jsval \<Rightarrow> string \<Rightarrow> error + 'p jsval option" where
  "getProp JNull k = Inl TypeError"
| "getProp (JObj fs) k = Inr (map_of fs k)"
| "getProp v k = Inr None"

text \<open>Truthiness, the \<open>!!v\<close> of the source; \<open>None\<close> is \<open>undefined\<close>.\<close>

fun truthy :: "'p jsval option \<Rightarrow> bool" where
  "truthy None = False"
| "truthy (Some JNull) = False"
| "truthy (Some (JBool b)) = b"
| "truthy (Some (JNum n)) = (n \<noteq> 0)"
| "truthy (Some (JStr s)) = (s \<noteq> [])"
| "truthy (Some (JArr xs)) = True"
| "truthy (Some (JObj fs)) = True"
| "truthy (Some (JRef p)) = True"

text \<open>
  The characters that \<^verbatim>\<open>\s\<close> matches, among the code units below 256: tab, line
  feed, vertical tab, form feed, carriage return, space and no-break space.
\<close>

definition isSpace :: "char \<Rightarrow> bool" where
  "isSpace c = (of_char c \<in> {9, 10, 11, 12, 13, 32, 160 :: nat})"

text \<open>
  \<open>isEmpty\<close> (line 21) is \<^verbatim>\<open>(s) => !!s && !!(s.replace(/\s+/g, ''))\<close>. Despite its
  name it is true for a string that has a character other than white space. A falsy
  argument gives false without a call of \<open>replace\<close>; a truthy argument that is not a
  string has no function \<open>replace\<close>, and the call throws.
\<close>

fun isEmpty :: "'p jsval option \<Rightarrow> error + bool" where
  "isEmpty (Some (JStr t)) = Inr (t \<noteq> [] \<and> filter (\<lambda>c. \<not> isSpace c) t \<noteq> [])"
| "isEmpty s = (if truthy s then Inl TypeError else Inr False)"

text \<open>
  \<^verbatim>\<open>for (let m of menus)\<close>: an array yields its elements, a string its characters as
  one-character strings; nothing else that \<^verbatim>\<open>JSON.parse\<close> returns is iterable.
\<close>

fun iterate :: "'p jsval \<Rightarrow> error + 'p jsval list" where
  "iterate (JArr xs) = Inr xs"
| "iterate (JStr s) = Inr (map (\<lambda>c. JStr [c]) s)"
| "iterate v = Inl TypeError"

text \<open>
  Writing a property, as in \<^verbatim>\<open>m.plugin = pluginInfo\<close>. On an object the property
  is replaced where it stands or added at the end. On \<open>null\<close> the assignment throws,
  and so it does, in the strict mode of a module, on a boolean, a number or a string.
  An array or a host object would take the property; the values here have no place
  for it and are returned as they are. Neither can pass the validation as a MenuItem,
  having no \<open>name\<close>.

  \<open>withChildren\<close> puts back the children of a Menu after the recursive call has run
  on them, and \<open>rebuild\<close> the elements of an array: the source changes the MenuItems in
  place, inside the arrays that hold them.
\<close>

fun setProp :: "'p jsval \<Rightarrow> string \<Rightarrow> 'p jsval \<Rightarrow> error + 'p jsval" where
  "setProp (JObj fs) k v = Inr (JObj (AList.update k v fs))"
| "setProp (JArr xs) k v = Inr (JArr xs)"
| "setProp (JRef p) k v = Inr (JRef p)"
| "setProp u k v = Inl TypeError"

fun withChildren :: "'p jsval \<Rightarrow> 'p jsval \<Rightarrow> 'p jsval" where
  "withChildren (JObj fs) c = JObj (AList.update ''children'' c fs)"
| "withChildren m c = m"

fun rebuild :: "'p jsval \<Rightarrow> 'p jsval list \<Rightarrow> 'p jsval" where
  "rebuild (JArr xs) ms = JArr ms"
| "rebuild v ms = v"

text \<open>
  The nesting depth of a value. The recursion of \<open>_menuForEach\<close> goes from a node to
  the value of its \<open>children\<close> property, which lies one level deeper.
\<close>

fun height :: "'p jsval \<Rightarrow> nat" where
  "height (JArr xs) = Suc (foldr (\<lambda>x h. max (height x) h) xs 0)"
| "height (JObj fs) = Suc (foldr (\<lambda>kv h. max (height (snd kv)) h) fs 0)"
| "height v = 0"

definition heights :: "'p jsval list \<Rightarrow> nat" where
  "heights ms = foldr (\<lambda>x h. max (height x) h) ms 0"

lemma heights_simps [simp]:
  "heights [] = 0" "heights (m # ms) = max (height m) (heights ms)"
  by (simp_all add: heights_def)

lemma height_map_of: "map_of fs k = Some v \<Longrightarrow> height v < height (JObj fs)"
  by (induction fs) (auto split: if_splits simp: less_Suc_eq_le max.coboundedI2 max.coboundedI1)

lemma height_getProp: "getProp m k = Inr c \<Longrightarrow> truthy c \<Longrightarrow> height (the c) < height m"
  by (cases m; cases c) (auto dest: height_map_of)

lemma heights_iterate: "iterate menus' = Inr ms \<Longrightarrow> heights ms \<le> height menus'"
proof (cases menus')
  case (JStr s)
  assume "iterate menus' = Inr ms"
  with JStr have "ms = map (\<lambda>c. JStr [c]) s" by simp
  then have "heights ms = 0" by (induction s arbitrary: ms) auto
  then show ?thesis by simp
next
  case (JArr xs)
  assume "iterate menus' = Inr ms"
  with JArr show ?thesis by (simp add: heights_def)
qed auto

text \<open>
  \<open>_menuForEach\<close> (lines 59-75), with \<open>forLoop\<close> for its loop. A callback gets the node
  and the variables it has captured (\<open>'s\<close>: the \<open>errorMsg\<close> of \<open>_getError\<close>), and returns
  its result (\<open>boolean|void\<close>; \<open>None\<close> is \<open>undefined\<close>) and the new value of those
  variables. The MenuItem callback also returns the node as it has left it. The Menu
  callback is taken not to change its node; neither Menu callback of the source does.
  A call yields whether the traversal ran to its end, the value traversed as the
  callbacks have left it, and the captured variables, or the exception thrown.

  \<open>m.children\<close> is read for the test and again for the recursive call.
\<close>

type_synonym ('p, 's) onMenu = "'p jsval \<Rightarrow> 's \<Rightarrow> error + (bool option \<times> 's)"
type_synonym ('p, 's) onMenuItem = "'p jsval \<Rightarrow> 's \<Rightarrow> error + (bool option \<times> 'p jsval \<times> 's)"

function menuForEach ::
    "'p jsval \<Rightarrow> ('p, 's) onMenu \<Rightarrow> ('p, 's) onMenuItem \<Rightarrow> 's \<Rightarrow> error + (bool \<times> 'p jsval \<times> 's)"
and forLoop ::
    "'p jsval list \<Rightarrow> ('p, 's) onMenu \<Rightarrow> ('p, 's) onMenuItem \<Rightarrow> 's \<Rightarrow> error + (bool \<times> 'p jsval list \<times> 's)"
where
  "menuForEach menus' onMenu onMenuItem s =
     (case iterate menus' of
        Inl e \<Rightarrow> Inl e
      | Inr ms \<Rightarrow>
          (case forLoop ms onMenu onMenuItem s of
             Inl e \<Rightarrow> Inl e
           | Inr (b, ms', s') \<Rightarrow> Inr (b, rebuild menus' ms', s')))"
| "forLoop [] onMenu onMenuItem s = Inr (True, [], s)"
| "forLoop (m # rest) onMenu onMenuItem s =
     (case getProp m ''children'' of
        Inl e \<Rightarrow> Inl e
      | Inr c \<Rightarrow>
          if truthy c then
            (case onMenu m s of
               Inl e \<Rightarrow> Inl e
             | Inr (r, s1) \<Rightarrow>
                 if r = Some False then Inr (False, m # rest, s1)
                 else
                   (case menuForEach (the c) onMenu onMenuItem s1 of
                      Inl e \<Rightarrow> Inl e
                    | Inr (b, c', s2) \<Rightarrow>
                        if \<not> b then Inr (False, withChildren m c' # rest, s2)
                        else
                          (case forLoop rest onMenu onMenuItem s2 of
                             Inl e \<Rightarrow> Inl e
                           | Inr (b', rest', s3) \<Rightarrow> Inr (b', withChildren m c' # rest', s3))))
          else
            (case onMenuItem m s of
               Inl e \<Rightarrow> Inl e
             | Inr (r, m', s1) \<Rightarrow>
                 if r = Some False then Inr (False, m' # rest, s1)
                 else
                   (case forLoop rest onMenu onMenuItem s1 of
                      Inl e \<Rightarrow> Inl e
                    | Inr (b', rest', s2) \<Rightarrow> Inr (b', m' # rest', s2))))"
  by pat_completeness auto

termination
proof (relation "inv_image (less_than <*lex*> less_than <*lex*> less_than)
    (\<lambda>x. case x of
        Inl (menus', _) \<Rightarrow> (height menus', 1 :: nat, 0 :: nat)
      | Inr (ms, _) \<Rightarrow> (heights ms, 0, length ms))", goal_cases)
  case 1
  show ?case by (intro wf_inv_image wf_lex_prod wf_less_than)
next
  case (2 menus' onMenu onMenuItem s ms)
  from heights_iterate[OF 2] show ?case by auto
next
  case (3 m rest onMenu onMenuItem s c x r s1)
  from height_getProp[OF 3(1,2)] show ?case by (auto simp: max_def)
next
  case 4
  then show ?case by (auto simp: max_def)
next
  case 5
  then show ?case by (auto simp: max_def)
qed

declare menuForEach.simps [simp del] forLoop.simps [simp del] isEmpty.simps [simp del]

text \<open>
  The two callbacks of \<open>_getError\<close> (lines 27-33 and 35-45). Each sets \<open>errorMsg\<close> and
  returns false at a violation, and returns true otherwise.
\<close>

definition onMenuCheck :: "('p, string) onMenu" where
  "onMenuCheck m errorMsg =
     (case getProp m ''name'' of
        Inl e \<Rightarrow> Inl e
      | Inr nm \<Rightarrow>
          (case isEmpty nm of
             Inl e \<Rightarrow> Inl e
           | Inr b \<Rightarrow>
               if \<not> b then Inr (Some False, ''Menus must be named'')
               else Inr (Some True, errorMsg)))"

definition onMenuItemCheck :: "('p, string) onMenuItem" where
  "onMenuItemCheck m errorMsg =
     (case getProp m ''name'' of
        Inl e \<Rightarrow> Inl e
      | Inr nm \<Rightarrow>
          (case isEmpty nm of
             Inl e \<Rightarrow> Inl e
           | Inr b \<Rightarrow>
               if \<not> b then Inr (Some False, m, ''Menu items must be named'')
               else
                 (case getProp m ''command'' of
                    Inl e \<Rightarrow> Inl e
                  | Inr cmd \<Rightarrow>
                      (case isEmpty cmd of
                         Inl e \<Rightarrow> Inl e
                       | Inr b' \<Rightarrow>
                           if \<not> b' then Inr (Some False, m, ''Menu items must have a command'')
                           else Inr (Some True, m, errorMsg)))))"

text \<open>
  \<open>_getError\<close> (lines 19-50) returns \<open>false\<close> (\<open>None\<close>) when the traversal ran to its
  end, and the message otherwise.
\<close>

definition getError :: "'p jsval \<Rightarrow> error + string option" where
  "getError menus' =
     (case menuForEach menus' onMenuCheck onMenuItemCheck '''' of
        Inl e \<Rightarrow> Inl e
      | Inr (valid, menus'', errorMsg) \<Rightarrow> Inr (if valid then None else Some errorMsg))"

text \<open>The callbacks of the second traversal of \<open>parse\<close> (lines 96-100).\<close>

definition onMenuSkip :: "('p, unit) onMenu" where
  "onMenuSkip m s = Inr (None, s)"

definition onMenuItemLink :: "'p \<Rightarrow> ('p, unit) onMenuItem" where
  "onMenuItemLink pluginInfo m s =
     (case setProp m ''plugin'' (JRef pluginInfo) of
        Inl e \<Rightarrow> Inl e
      | Inr m' \<Rightarrow> Inr (None, m', s))"

text \<open>
  \<open>parse\<close> (lines 82-104). \<^verbatim>\<open>JSON.parse\<close> is the language's own: \<open>content\<close> stands
  for its outcome on the text, \<open>None\<close> when it throws. \<^verbatim>\<open>if (error)\<close> is the
  truthiness of \<open>false\<close> or of a string.
\<close>

definition parse :: "'p jsval option \<Rightarrow> 'p \<Rightarrow> error + 'p jsval" where
  "parse content pluginInfo =
     (case content of
        None \<Rightarrow> Inl (Error ''JSON in invalid format'')
      | Some menus' \<Rightarrow>
          (case getError menus' of
             Inl e \<Rightarrow> Inl e
           | Inr error \<Rightarrow>
               (case error of
                  Some msg \<Rightarrow>
                    if msg \<noteq> [] then Inl (Error (''Invalid menus: \"'' @ msg @ ''\"''))
                    else
                      (case menuForEach menus' onMenuSkip (onMenuItemLink pluginInfo) () of
                         Inl e \<Rightarrow> Inl e
                       | Inr (b, menus'', s) \<Rightarrow> Inr menus'')
                | None \<Rightarrow>
                    (case menuForEach menus' onMenuSkip (onMenuItemLink pluginInfo) () of
                       Inl e \<Rightarrow> Inl e
                     | Inr (b, menus'', s) \<Rightarrow> Inr menus''))))"

section \<open>Notions the properties are stated with\<close>

text \<open>
  One step of the second loop of \<open>_registerMenu\<close>, as a function on the sibling list:
  a Menu goes to \<open>_registerMenu\<close>, anything else to \<open>_registerMenuItem\<close>.
\<close>

definition mergeNode :: "'p node list \<Rightarrow> 'p node \<Rightarrow> 'p node list" where
  "mergeNode siblings m =
     (if isMenu m then fst (registerMenu siblings m) else fst (registerMenuItem siblings m))"

text \<open>
  Name uniqueness in every sibling list: among the Menus of the list no name occurs
  twice, among its MenuItems no name occurs twice, and the same holds in the children
  of each of its Menus. \<open>siblingLists\<close> enumerates the sibling lists of a forest: the
  top-level list and, below each Menu, the sibling lists of its children.
\<close>

fun uniqueSiblings :: "'p node list \<Rightarrow> bool"
and uniqueBelow :: "'p node \<Rightarrow> bool" where
  "uniqueSiblings L =
     (distinct (map name (filter isMenu L))
      \<and> distinct (map name (filter (\<lambda>x. \<not> isMenu x) L))
      \<and> list_all uniqueBelow L)"
| "uniqueBelow (Menu n kids) = uniqueSiblings kids"
| "uniqueBelow (MenuItem n c p) = True"


fun siblingLists :: "'p node list \<Rightarrow> 'p node list list"
and siblingListsBelow :: "'p node \<Rightarrow> 'p node list list" where
  "siblingLists L = L # concat (map siblingListsBelow L)"
| "siblingListsBelow (Menu n kids) = siblingLists kids"
| "siblingListsBelow (MenuItem n c p) = []"

text \<open>
  The states a manager can be in: the one the constructor builds, and the one any call
  of \<open>register\<close> leaves behind, whether the call returns or throws.
\<close>

inductive reachable :: "'p MenuManager \<Rightarrow> bool" where
  start: "reachable newMenuManager"
| call: "reachable this \<Longrightarrow> reachable (fst (register this menu))"

text \<open>All names of a node, at every depth, and all names of a forest.\<close>

fun allNames :: "'p node \<Rightarrow> string list" where
  "allNames (Menu n cs) = n # concat (map allNames cs)"
| "allNames (MenuItem n c p) = [n]"

definition forestNames :: "'p node list \<Rightarrow> string list" where
  "forestNames F = concat (map allNames F)"

text \<open>
  The number of MenuItems in a node, at every depth, counted as often as they occur.
\<close>

fun countItems :: "'p node \<Rightarrow> nat" where
  "countItems (Menu n cs) = sum_list (map countItems cs)"
| "countItems (MenuItem n c p) = 1"


text \<open>
  \<open>childrenOf L n\<close> is the children list of the first Menu named \<open>n\<close> in \<open>L\<close>. A sibling
  list \<open>covers\<close> a node when registering the node would find everything in place: for a
  MenuItem, some sibling carries its name; for a Menu, the list has a Menu of that name
  whose children cover each child of the node.
\<close>

fun childrenOf :: "'p node list \<Rightarrow> string \<Rightarrow> 'p node list option" where
  "childrenOf [] n = None"
| "childrenOf (Menu n' kids # rest) n = (if n' = n then Some kids else childrenOf rest n)"
| "childrenOf (MenuItem n' c p # rest) n = childrenOf rest n"

fun covers :: "'p node list \<Rightarrow> 'p node \<Rightarrow> bool" where
  "covers L (MenuItem n c p) = (n \<in> name ` set L)"
| "covers L (Menu n cs) =
     (case childrenOf L n of None \<Rightarrow> False | Some kids \<Rightarrow> (\<forall>c\<in>set cs. covers kids c))"

text \<open>
  A JSON value that has the Menu or MenuItem shape, read as a node. The plugin of a
  MenuItem is the \<open>plugin\<close> property of the object, \<open>None\<close> when it has none. Other
  properties, and the order of the properties, are free.
\<close>

fun decodes :: "'p jsval \<Rightarrow> 'p jsval option node \<Rightarrow> bool" where
  "decodes j (Menu n cs) =
     (case j of
        JObj fs \<Rightarrow>
          map_of fs ''name'' = Some (JStr n)
          \<and> (case map_of fs ''children'' of
                Some (JArr xs) \<Rightarrow> list_all2 decodes xs cs
              | _ \<Rightarrow> False)
      | _ \<Rightarrow> False)"
| "decodes j (MenuItem n c pl) =
     (case j of
        JObj fs \<Rightarrow>
          map_of fs ''name'' = Some (JStr n)
          \<and> map_of fs ''command'' = Some (JStr c)
          \<and> \<not> truthy (map_of fs ''children'')
          \<and> map_of fs ''plugin'' = pl
      | _ \<Rightarrow> False)"

text \<open>
  A string is blank when it is empty or all white space. A Menu violates the schema
  when its name is blank; a MenuItem when its name is blank or, the name being fine,
  its command is blank. \<open>preorder\<close> lists the nodes depth-first and left to right, a
  Menu before its children, and \<open>firstViolation\<close> is the message of the first node in
  that order that violates the schema.
\<close>

definition blank :: "string \<Rightarrow> bool" where
  "blank s = list_all isSpace s"

fun violation :: "'a node \<Rightarrow> string option" where
  "violation (Menu n cs) = (if blank n then Some ''Menus must be named'' else None)"
| "violation (MenuItem n c pl) =
     (if blank n then Some ''Menu items must be named''
      else if blank c then Some ''Menu items must have a command''
      else None)"

fun preorder :: "'a node \<Rightarrow> 'a node list" where
  "preorder (Menu n cs) = Menu n cs # concat (map preorder cs)"
| "preorder (MenuItem n c pl) = [MenuItem n c pl]"

definition firstViolation :: "'a node list \<Rightarrow> string option" where
  "firstViolation F =
     (case filter (\<lambda>x. violation x \<noteq> None) (concat (map preorder F)) of
        [] \<Rightarrow> None
      | x # rest \<Rightarrow> violation x)"

text \<open>
  \<open>stampAll\<close> sets the plugin of every MenuItem of a node, and \<open>plugins\<close> lists the
  plugins of the MenuItems of a node, at every depth.
\<close>

definition stampAll :: "'p \<Rightarrow> 'p jsval option node \<Rightarrow> 'p jsval option node" where
  "stampAll pluginInfo = map_node (\<lambda>pl. Some (JRef pluginInfo))"

fun plugins :: "'a node \<Rightarrow> 'a list" where
  "plugins (Menu n cs) = concat (map plugins cs)"
| "plugins (MenuItem n c pl) = [pl]"

section \<open>Facts about the search and the merge\<close>

lemma findMenu_None_iff:
  "findMenu L n = None \<longleftrightarrow> (\<forall>x\<in>set L. \<not> (isMenu x \<and> name x = n))"
  by (induction L n rule: findMenu.induct) auto

lemma findMenu_SomeD:
  "findMenu L n = Some (pre, kids, suf) \<Longrightarrow>
     L = pre @ Menu n kids # suf \<and> (\<forall>x\<in>set pre. \<not> (isMenu x \<and> name x = n))"
  by (induction L n arbitrary: pre rule: findMenu.induct) (auto split: if_splits)

lemma findMenu_split:
  "\<forall>x\<in>set pre. \<not> (isMenu x \<and> name x = n) \<Longrightarrow>
     findMenu (pre @ Menu n kids # suf) n = Some (pre, kids, suf)"
proof (induction pre)
  case Nil
  then show ?case by simp
next
  case (Cons x pre)
  then show ?case by (cases x) auto
qed

lemma findMenu_index:
  assumes "i < length L" and "L ! i = Menu n kids"
    and "\<forall>j<i. \<not> (isMenu (L ! j) \<and> name (L ! j) = n)"
  shows "findMenu L n = Some (take i L, kids, drop (Suc i) L)"
proof -
  have L: "L = take i L @ Menu n kids # drop (Suc i) L"
    using assms(1,2) by (metis id_take_nth_drop)
  have "\<forall>x\<in>set (take i L). \<not> (isMenu x \<and> name x = n)"
  proof
    fix x assume "x \<in> set (take i L)"
    then obtain j where "j < i" and "x = L ! j"
      using assms(1) by (auto simp: in_set_conv_nth)
    with assms(3) show "\<not> (isMenu x \<and> name x = n)" by simp
  qed
  from findMenu_split[OF this] L show ?thesis by metis
qed

lemma no_error:
  "isMenu m \<Longrightarrow> snd (snd (registerMenu (L :: 'p node list) m)) = None"
  "snd (snd (mergeChildren (kids :: 'p node list) cs)) = None"
  by (induction L m and kids cs rule: registerMenu_mergeChildren.induct)
     (auto split: option.splits prod.splits if_splits)

lemma mergeChildren_foldl:
  "fst (mergeChildren kids cs) = foldl mergeNode kids cs"
proof (induction cs arbitrary: kids)
  case Nil
  show ?case by simp
next
  case (Cons m ms)
  show ?case
  proof (cases "isMenu m")
    case True
    obtain k1 o1 e1 where r: "registerMenu kids m = (k1, o1, e1)" by (cases "registerMenu kids m")
    with no_error(1)[OF True, of kids] have "e1 = None" by simp
    with r True Cons[of k1] show ?thesis
      by (simp add: mergeNode_def case_prod_unfold)
  next
    case False
    then show ?thesis using Cons
      by (simp add: mergeNode_def case_prod_unfold)
  qed
qed

lemma fst_registerMenuItem:
  "fst (registerMenuItem L m) = (if \<not> isMenu m \<and> name m \<in> name ` set L then L else L @ [m])"
  unfolding registerMenuItem_def list_ex_iff image_iff by (simp, metis)

lemma fst_registerMenu_Menu:
  "fst (registerMenu L (Menu n cs)) =
     (case findMenu L n of
        Some (pre, kids, suf) \<Rightarrow> pre @ Menu n (foldl mergeNode kids cs) # suf
      | None \<Rightarrow> L @ [Menu n (foldl mergeNode [] cs)])"
  by (simp add: mergeChildren_foldl[symmetric] case_prod_unfold split: option.splits)

lemma fst_registerMenu_MenuItem:
  "fst (registerMenu L (MenuItem n c p)) =
     (case findMenu L n of Some x \<Rightarrow> L | None \<Rightarrow> L @ [Menu n []])"
  by (simp split: option.splits)

lemma uniqueSiblings_registerMenuItem:
  "uniqueSiblings L \<Longrightarrow> \<not> isMenu m \<Longrightarrow> uniqueSiblings (fst (registerMenuItem L m))"
  by (cases m) (auto simp: fst_registerMenuItem image_iff)

lemma uniqueSiblings_replace:
  assumes "uniqueSiblings (pre @ Menu n kids # suf)" and "uniqueSiblings kids'"
  shows "uniqueSiblings (pre @ Menu n kids' # suf)"
  using assms by auto

lemma uniqueSiblings_append_Menu:
  assumes "uniqueSiblings L" and "findMenu L n = None" and "uniqueSiblings kids'"
  shows "uniqueSiblings (L @ [Menu n kids'])"
  using assms by (auto simp: findMenu_None_iff)

lemma uniqueSiblings_kids:
  "uniqueSiblings (pre @ Menu n kids # suf) \<Longrightarrow> uniqueSiblings kids"
  by auto

lemma uniqueSiblings_preserved:
  "uniqueSiblings (L :: 'p node list) \<Longrightarrow> uniqueSiblings (fst (registerMenu L m))"
  "uniqueSiblings (kids :: 'p node list) \<Longrightarrow> uniqueSiblings (fst (mergeChildren kids cs))"
proof (induction L m and kids cs rule: registerMenu_mergeChildren.induct)
  case (1 existing_menus n cs)
  show ?case
  proof (cases "findMenu existing_menus n")
    case None
    with 1 have "uniqueSiblings (fst (mergeChildren [] cs))" by simp
    from uniqueSiblings_append_Menu[OF "1.prems" None this] None show ?thesis
      by (simp add: case_prod_unfold del: uniqueSiblings.simps)
  next
    case (Some t)
    obtain pre kids suf where t: "t = (pre, kids, suf)" by (cases t)
    from findMenu_SomeD Some t have L: "existing_menus = pre @ Menu n kids # suf" by blast
    with "1.prems" have "uniqueSiblings kids" using uniqueSiblings_kids by blast
    with "1.IH"(2)[OF Some t[symmetric] refl] have "uniqueSiblings (fst (mergeChildren kids cs))" 
      by simp
    from uniqueSiblings_replace[OF _ this] "1.prems" L Some t show ?thesis
      by (simp add: case_prod_unfold del: uniqueSiblings.simps)
  qed
next
  case (2 existing_menus n c p)
  show ?case
  proof (cases "findMenu existing_menus n")
    case None
    have "uniqueSiblings ([] :: 'p node list)" by simp
    from uniqueSiblings_append_Menu[OF "2.prems" None this] None show ?thesis
      by (simp del: uniqueSiblings.simps)
  next
    case (Some t)
    with 2 show ?thesis by (simp add: case_prod_unfold del: uniqueSiblings.simps)
  qed
next
  case (3 kids)
  then show ?case by simp
next
  case (4 kids m ms)
  show ?case
  proof (cases "isMenu m")
    case True
    obtain k1 o1 e1 where r: "registerMenu kids m = (k1, o1, e1)" by (cases "registerMenu kids m")
    with no_error(1)[OF True, of kids] have e: "e1 = None" by simp
    from "4.IH"(1)[OF True "4.prems"] r have "uniqueSiblings k1" by simp
    from "4.IH"(2)[of k1 "(o1, e1)" o1 e1] this r True e 
    have "uniqueSiblings (fst (mergeChildren k1 ms))" by simp
    with r True e show ?thesis by (simp add: case_prod_unfold del: uniqueSiblings.simps)
  next
    case False
    obtain k1 o1 where r: "registerMenuItem kids m = (k1, o1)" by (cases "registerMenuItem kids m")
    from uniqueSiblings_registerMenuItem[OF "4.prems" False] r have "uniqueSiblings k1" by simp
    from "4.IH"(2)[of k1 "(o1, None)" o1 None] this r False
    have "uniqueSiblings (fst (mergeChildren k1 ms))" by simp
    with r False show ?thesis by (simp add: case_prod_unfold del: uniqueSiblings.simps)
  qed
qed

lemma registerForest_mergeChildren:
  "list_all isMenu F \<Longrightarrow>
     registerForest this F =
       (case mergeChildren (menus this) F of (L, out, e) \<Rightarrow> (this\<lparr>menus := L\<rparr>, out, e))"
proof (induction F arbitrary: this)
  case Nil
  show ?case by simp
next
  case (Cons m ms)
  then have m: "isMenu m" and ms: "list_all isMenu ms" by simp_all
  obtain k1 o1 e1 where r: "registerMenu (menus this) m = (k1, o1, e1)"
    by (cases "registerMenu (menus this) m")
  with no_error(1)[OF m, of "menus this"] have e: "e1 = None" by simp
  show ?case using Cons.IH[OF ms, of "this\<lparr>menus := k1\<rparr>"] r e m
    by (simp add: register_def case_prod_unfold)
qed

lemma menus_registerForest:
  "list_all isMenu F \<Longrightarrow> menus (fst (registerForest this F)) = foldl mergeNode (menus this) F"
  by (simp add: registerForest_mergeChildren case_prod_unfold mergeChildren_foldl)

lemma findMenu_append_left:
  "\<forall>x\<in>set S. \<not> (isMenu x \<and> name x = n) \<Longrightarrow>
     findMenu (S @ T) n = map_option (\<lambda>(pre, k, suf). (S @ pre, k, suf)) (findMenu T n)"
proof (induction S)
  case Nil
  show ?case by (simp add: option.map_ident case_prod_unfold)
next
  case (Cons x S)
  then show ?case by (cases x) (auto simp: option.map_comp comp_def case_prod_unfold)
qed

lemma mergeNode_append_left:
  assumes "isMenu m" and "\<forall>x\<in>set S. \<not> (isMenu x \<and> name x = name m)"
  shows "mergeNode (S @ T) m = S @ mergeNode T m"
proof -
  from assms(1) obtain n cs where m: "m = Menu n cs" by (cases m) auto
  with assms(2) have "findMenu (S @ T) n = map_option (\<lambda>(pre, k, suf). (S @ pre, k, suf)) (findMenu T n)"
    by (simp add: findMenu_append_left)
  then show ?thesis
    by (simp add: m mergeNode_def fst_registerMenu_Menu del: registerMenu.simps split: option.splits)
qed

lemma foldl_mergeNode_append_left:
  assumes "list_all isMenu F" and "\<forall>x\<in>set S. isMenu x \<longrightarrow> name x \<notin> name ` set F"
  shows "foldl mergeNode (S @ T) F = S @ foldl mergeNode T F"
  using assms
proof (induction F arbitrary: T)
  case Nil
  show ?case by simp
next
  case (Cons m ms)
  then have "mergeNode (S @ T) m = S @ mergeNode T m"
    by (intro mergeNode_append_left) auto
  with Cons show ?case by simp
qed

lemma menu_names_mergeNode:
  assumes "isMenu m" and "isMenu x" and "x \<in> set (mergeNode L m)"
  shows "name x = name m \<or> (\<exists>y\<in>set L. isMenu y \<and> name y = name x)"
proof -
  from assms(1) obtain n cs where m: "m = Menu n cs" by (cases m) auto
  show ?thesis
  proof (cases "findMenu L n")
    case None
    with assms m show ?thesis by (auto simp: mergeNode_def fst_registerMenu_Menu simp del: registerMenu.simps)
  next
    case (Some t)
    obtain pre kids suf where t: "t = (pre, kids, suf)" by (cases t)
    with Some findMenu_SomeD have "L = pre @ Menu n kids # suf" by blast
    with assms m Some t show ?thesis by (auto simp: mergeNode_def fst_registerMenu_Menu simp del: registerMenu.simps)
  qed
qed

lemma menu_names_foldl_mergeNode:
  assumes "list_all isMenu F" and "isMenu x" and "x \<in> set (foldl mergeNode L F)"
  shows "name x \<in> name ` set F \<or> (\<exists>y\<in>set L. isMenu y \<and> name y = name x)"
  using assms
proof (induction F arbitrary: L)
  case Nil
  then show ?case by auto
next
  case (Cons m ms)
  then have "name x \<in> name ` set ms \<or> (\<exists>y\<in>set (mergeNode L m). isMenu y \<and> name y = name x)"
    by simp
  then show ?case
  proof
    assume "name x \<in> name ` set ms" then show ?thesis by simp
  next
    assume "\<exists>y\<in>set (mergeNode L m). isMenu y \<and> name y = name x"
    then obtain y where y: "y \<in> set (mergeNode L m)" "isMenu y" "name y = name x" by blast
    from Cons.prems(1) have "isMenu m" by simp
    from menu_names_mergeNode[OF this y(2) y(1)] y(3) show ?thesis by auto
  qed
qed

lemma name_in_allNames: "name m \<in> set (allNames m)"
  by (cases m) simp_all

lemma name_in_forestNames: "m \<in> set F \<Longrightarrow> name m \<in> set (forestNames F)"
  using name_in_allNames by (auto simp: forestNames_def)

lemma register_disjoint_append:
  assumes A: "list_all isMenu A" and B: "list_all isMenu B"
    and disj: "set (forestNames A) \<inter> set (forestNames B) = {}"
  shows "menus (fst (registerForest (fst (registerForest newMenuManager A)) B))
         = menus (fst (registerForest newMenuManager A)) @ menus (fst (registerForest newMenuManager B))"
proof -
  let ?RA = "foldl mergeNode [] A"
  have "\<forall>x\<in>set ?RA. isMenu x \<longrightarrow> name x \<notin> name ` set B"
  proof (intro ballI impI)
    fix x assume x: "x \<in> set ?RA" "isMenu x"
    from menu_names_foldl_mergeNode[OF A x(2) x(1)] have "name x \<in> name ` set A" by simp
    then have "name x \<in> set (forestNames A)" using name_in_forestNames by auto
    with disj have "name x \<notin> set (forestNames B)" by auto
    then show "name x \<notin> name ` set B" by (metis imageE name_in_forestNames)
  qed
  from foldl_mergeNode_append_left[OF B this, of "[]"]
  show ?thesis by (simp add: menus_registerForest A B newMenuManager_def)
qed

lemma childrenOf_findMenu:
  "childrenOf L n = map_option (\<lambda>(pre, k, suf). k) (findMenu L n)"
  by (induction L n rule: findMenu.induct) (auto simp: option.map_comp comp_def case_prod_unfold)

lemma childrenOf_append:
  "childrenOf (S @ T) n = (case childrenOf S n of Some k \<Rightarrow> Some k | None \<Rightarrow> childrenOf T n)"
  by (induction S n rule: childrenOf.induct) auto

lemma childrenOf_mergeNode:
  "childrenOf (mergeNode L m) n =
     (case m of
        Menu n' cs \<Rightarrow>
          if n' = n then Some (foldl mergeNode (case childrenOf L n of None \<Rightarrow> [] | Some k \<Rightarrow> k) cs)
          else childrenOf L n
      | MenuItem n' c p \<Rightarrow> childrenOf L n)"
proof (cases m)
  case (Menu n' cs)
  show ?thesis
  proof (cases "findMenu L n'")
    case None
    then have "childrenOf L n' = None" by (simp add: childrenOf_findMenu)
    with None Menu show ?thesis
      by (auto simp: mergeNode_def fst_registerMenu_Menu childrenOf_append 
          simp del: registerMenu.simps split: option.splits)
  next
    case (Some t)
    obtain pre kids suf where t: "t = (pre, kids, suf)" by (cases t)
    with Some findMenu_SomeD have L: "L = pre @ Menu n' kids # suf" 
      and pre: "\<forall>x\<in>set pre. \<not> (isMenu x \<and> name x = n')" by blast+
    from pre have "findMenu pre n' = None" by (simp add: findMenu_None_iff)
    then have pre': "childrenOf pre n' = None" by (simp add: childrenOf_findMenu)
    from Some t have "childrenOf L n' = Some kids" by (simp add: childrenOf_findMenu)
    with Some t Menu pre' show ?thesis
      by (auto simp: mergeNode_def fst_registerMenu_Menu childrenOf_append L
          simp del: registerMenu.simps split: option.splits)
  qed
next
  case (MenuItem n' c p)
  then show ?thesis
    by (auto simp: mergeNode_def fst_registerMenuItem childrenOf_append split: option.splits)
qed

lemma names_mergeNode: "name ` set L \<subseteq> name ` set (mergeNode L m)"
proof (cases m)
  case (Menu n cs)
  show ?thesis
  proof (cases "findMenu L n")
    case None
    with Menu show ?thesis 
      by (auto simp: mergeNode_def fst_registerMenu_Menu simp del: registerMenu.simps)
  next
    case (Some t)
    obtain pre kids suf where t: "t = (pre, kids, suf)" by (cases t)
    with Some findMenu_SomeD have L: "L = pre @ Menu n kids # suf" by blast
    with Some t Menu show ?thesis 
      by (auto simp: mergeNode_def fst_registerMenu_Menu simp del: registerMenu.simps)
  qed
next
  case (MenuItem n c p)
  then show ?thesis by (auto simp: mergeNode_def fst_registerMenuItem)
qed

lemma covers_foldl:
  assumes "\<And>L m. covers L c \<Longrightarrow> covers (mergeNode L m) c" and "covers L c"
  shows "covers (foldl mergeNode L ms) c"
  using assms(2) by (induction ms arbitrary: L) (simp_all add: assms(1))

lemma covers_mono: "covers L x \<Longrightarrow> covers (mergeNode L m) x"
proof (induction x arbitrary: L m)
  case (MenuItem n c p)
  then show ?case using names_mergeNode[of L m] by auto
next
  case (Menu n cs)
  from Menu.prems obtain kids where k: "childrenOf L n = Some kids" 
    and c: "\<forall>c\<in>set cs. covers kids c" by (auto split: option.splits)
  show ?case
  proof (cases m)
    case (MenuItem n' c' p')
    with k c show ?thesis by (simp add: childrenOf_mergeNode)
  next
    case m: (Menu n' cs')
    show ?thesis
    proof (cases "n' = n")
      case False
      with m k c show ?thesis by (simp add: childrenOf_mergeNode)
    next
      case True
      have "covers (foldl mergeNode kids cs') x" if "x \<in> set cs" for x
        using covers_foldl[of x kids cs'] Menu.IH[OF that] c that by blast
      with m k True show ?thesis by (simp add: childrenOf_mergeNode)
    qed
  qed
qed

lemma covers_foldl_mono: "covers L c \<Longrightarrow> covers (foldl mergeNode L ms) c"
  by (rule covers_foldl) (rule covers_mono)

lemma covers_all_foldl:
  assumes "\<And>c L. c \<in> set cs \<Longrightarrow> covers (mergeNode L c) c"
  shows "\<forall>c\<in>set cs. covers (foldl mergeNode L cs) c"
  using assms
proof (induction cs arbitrary: L)
  case Nil
  show ?case by simp
next
  case (Cons a cs)
  have "covers (mergeNode L a) a" using Cons.prems by simp
  then have "covers (foldl mergeNode (mergeNode L a) cs) a" by (rule covers_foldl_mono)
  moreover have "\<forall>c\<in>set cs. covers (foldl mergeNode (mergeNode L a) cs) c"
    using Cons.IH[of "mergeNode L a"] Cons.prems by simp
  ultimately show ?case by simp
qed

lemma covers_after: "covers (mergeNode L m) m"
proof (induction m arbitrary: L)
  case (MenuItem n c p)
  show ?case by (auto simp: mergeNode_def fst_registerMenuItem)
next
  case (Menu n cs)
  have "\<forall>c\<in>set cs. covers (foldl mergeNode K cs) c" for K
    using covers_all_foldl[of cs K] Menu.IH by blast
  then show ?case by (simp add: childrenOf_mergeNode)
qed

lemma covers_noop:
  "isMenu m \<Longrightarrow> covers (L :: 'p node list) m \<Longrightarrow>
     registerMenu L m = (L, replicate (countItems m) ''Menu item already registered'', None)"
  "\<forall>c\<in>set cs. covers (kids :: 'p node list) c \<Longrightarrow>
     mergeChildren kids cs
       = (kids, replicate (sum_list (map countItems cs)) ''Menu item already registered'', None)"
proof (induction L m and kids cs rule: registerMenu_mergeChildren.induct)
  case (1 existing_menus n cs)
  from "1.prems"(2) obtain kids where k: "childrenOf existing_menus n = Some kids" 
    and c: "\<forall>c\<in>set cs. covers kids c" by (auto split: option.splits)
  from k obtain pre suf where f: "findMenu existing_menus n = Some (pre, kids, suf)"
    by (auto simp: childrenOf_findMenu)
  with findMenu_SomeD have L: "existing_menus = pre @ Menu n kids # suf" by blast
  from "1.IH"(2)[OF f refl refl c] f L show ?case by simp
next
  case (2 existing_menus n c p)
  then show ?case by simp
next
  case (3 kids)
  show ?case by simp
next
  case (4 kids m ms)
  from "4.prems" have cm: "covers kids m" and cms: "\<forall>c\<in>set ms. covers kids c" by simp_all
  show ?case
  proof (cases "isMenu m")
    case True
    from "4.IH"(1)[OF True True cm] 
    have r: "registerMenu kids m = (kids, replicate (countItems m) ''Menu item already registered'', None)" .
    from "4.IH"(2)[OF _ refl refl cms] r True
    have "mergeChildren kids ms = (kids, replicate (sum_list (map countItems ms)) ''Menu item already registered'', None)"
      by simp
    with r True show ?thesis by (simp add: replicate_add)
  next
    case False
    then obtain n c p where m: "m = MenuItem n c p" by (cases m) auto
    with cm have r: "registerMenuItem kids m = (kids, [''Menu item already registered''])"
      by (auto simp: registerMenuItem_def list_ex_iff)
    from "4.IH"(2)[OF _ refl refl cms] r False
    have "mergeChildren kids ms = (kids, replicate (sum_list (map countItems ms)) ''Menu item already registered'', None)"
      by simp
    with r False m show ?thesis by simp
  qed
qed

lemma reachable_uniqueSiblings:
  "reachable this \<Longrightarrow> uniqueSiblings (menus this)"
proof (induction rule: reachable.induct)
  case start
  show ?case by (simp add: newMenuManager_def)
next
  case (call this menu)
  from uniqueSiblings_preserved(1)[OF call.IH, of menu] show ?case
    by (simp add: register_def case_prod_unfold del: uniqueSiblings.simps)
qed


lemma distinct_at_most_one:
  "distinct (map name (filter P L)) \<Longrightarrow> length (filter (\<lambda>x. P x \<and> name x = n) L) \<le> 1"
proof (induction L)
  case Nil
  show ?case by simp
next
  case (Cons a L)
  show ?case
  proof (cases "P a \<and> name a = n")
    case True
    with Cons.prems have "\<forall>x\<in>set L. \<not> (P x \<and> name x = n)" by (auto simp: image_iff)
    then have "filter (\<lambda>x. P x \<and> name x = n) L = []" by (simp add: filter_empty_conv)
    with True show ?thesis by simp
  next
    case False
    with Cons show ?thesis by (auto split: if_splits)
  qed
qed

lemma uniqueSiblings_siblingLists:
  "uniqueSiblings (L :: 'p node list) \<Longrightarrow> S \<in> set (siblingLists L) \<Longrightarrow>
     distinct (map name (filter isMenu S)) \<and> distinct (map name (filter (\<lambda>x. \<not> isMenu x) S))"
  "uniqueBelow (m :: 'p node) \<Longrightarrow> S \<in> set (siblingListsBelow m) \<Longrightarrow>
     distinct (map name (filter isMenu S)) \<and> distinct (map name (filter (\<lambda>x. \<not> isMenu x) S))"
proof (induction L and m arbitrary: S and S rule: uniqueSiblings_uniqueBelow.induct)
  case (1 L)
  from "1.prems"(2) consider "S = L" | x where "x \<in> set L" "S \<in> set (siblingListsBelow x)"
    by auto
  then show ?case
  proof cases
    case 1
    with "1.prems"(1) show ?thesis by simp
  next
    case 2
    from "1.prems"(1) 2(1) have "uniqueBelow x" by (simp add: list_all_iff)
    from "1.IH"[OF 2(1) this 2(2)] show ?thesis .
  qed
next
  case (2 n kids)
  from "2.IH"[of S] "2.prems" show ?case
    by (simp del: uniqueSiblings.simps siblingLists.simps)
next
  case (3 n c p)
  from "3.prems"(2) show ?case by simp
qed

lemma registerForest_twice:
  assumes "list_all isMenu F"
  shows "registerForest (fst (registerForest this F)) F
         = (fst (registerForest this F),
            replicate (sum_list (map countItems F)) ''Menu item already registered'',
            None)"
proof -
  have "\<forall>c\<in>set F. covers (foldl mergeNode (menus this) F) c"
    using covers_all_foldl[of F "menus this"] covers_after by blast
  then have "\<forall>c\<in>set F. covers (menus (fst (registerForest this F))) c"
    by (simp add: menus_registerForest assms)
  from covers_noop(2)[OF this] show ?thesis
    by (simp add: registerForest_mergeChildren assms)
qed

section \<open>Facts about the two traversals of the parser\<close>

lemma isEmpty_JStr: "isEmpty (Some (JStr t)) = Inr (\<not> blank t)"
  by (auto simp: isEmpty.simps blank_def list_all_iff filter_empty_conv)

lemma onMenuCheck_decoded:
  "map_of fs ''name'' = Some (JStr n) \<Longrightarrow>
     onMenuCheck (JObj fs) s =
       Inr (if blank n then (Some False, ''Menus must be named'') else (Some True, s))"
  by (simp add: onMenuCheck_def isEmpty_JStr)

lemma onMenuItemCheck_decoded:
  "map_of fs ''name'' = Some (JStr n) \<Longrightarrow> map_of fs ''command'' = Some (JStr c) \<Longrightarrow>
     onMenuItemCheck (JObj fs) s =
       Inr (if blank n then (Some False, JObj fs, ''Menu items must be named'')
            else if blank c then (Some False, JObj fs, ''Menu items must have a command'')
            else (Some True, JObj fs, s))"
  by (simp add: onMenuItemCheck_def isEmpty_JStr)

lemma firstViolation_Nil: "firstViolation [] = None"
  by (simp add: firstViolation_def)

lemma firstViolation_append:
  "firstViolation (A @ B) =
     (case firstViolation A of Some msg \<Rightarrow> Some msg | None \<Rightarrow> firstViolation B)"
proof (cases "filter (\<lambda>x. violation x \<noteq> None) (concat (map preorder A))")
  case Nil
  then show ?thesis by (simp add: firstViolation_def)
next
  case (Cons x rest)
  then have "x \<in> set (filter (\<lambda>x. violation x \<noteq> None) (concat (map preorder A)))" by simp
  then have "violation x \<noteq> None" by simp
  with Cons show ?thesis by (auto simp: firstViolation_def)
qed

lemma firstViolation_Cons:
  "firstViolation (x # F) =
     (case violation x of
        Some msg \<Rightarrow> Some msg
      | None \<Rightarrow>
          (case x of
             Menu n cs \<Rightarrow>
               (case firstViolation cs of Some msg \<Rightarrow> Some msg | None \<Rightarrow> firstViolation F)
           | MenuItem n c pl \<Rightarrow> firstViolation F))"
proof -
  have single: "firstViolation [x] =
     (case violation x of
        Some msg \<Rightarrow> Some msg
      | None \<Rightarrow> (case x of Menu n cs \<Rightarrow> firstViolation cs | MenuItem n c pl \<Rightarrow> None))"
    by (cases x) (auto simp: firstViolation_def split: option.splits)
  have step: "firstViolation (x # F) =
     (case firstViolation [x] of Some msg \<Rightarrow> Some msg | None \<Rightarrow> firstViolation F)"
    using firstViolation_append[of "[x]" F] by simp
  show ?thesis unfolding step single
    by (cases x) (simp_all split: option.splits)
qed

lemma forLoop_check:
  "list_all2 decodes xs F \<Longrightarrow>
     forLoop xs onMenuCheck onMenuItemCheck s =
       Inr (case firstViolation F of None \<Rightarrow> (True, xs, s) | Some msg \<Rightarrow> (False, xs, msg))"
proof (induction F arbitrary: xs s rule: measure_induct_rule[where f = "size_list size"])
  case (less F)
  show ?case
  proof (cases F)
    case Nil
    with less.prems show ?thesis by (simp add: forLoop.simps firstViolation_Nil)
  next
    case (Cons x F')
    with less.prems obtain j rest where xs: "xs = j # rest" and j: "decodes j x"
      and rest: "list_all2 decodes rest F'" by (auto simp: list_all2_Cons2)
    have IHrest: "forLoop rest onMenuCheck onMenuItemCheck s' =
       Inr (case firstViolation F' of None \<Rightarrow> (True, rest, s') | Some msg \<Rightarrow> (False, rest, msg))" for s'
      using less.IH[of F' rest s'] rest Cons by simp
    show ?thesis
    proof (cases x)
      case (MenuItem n c pl)
      with j obtain fs where fs: "j = JObj fs" "map_of fs ''name'' = Some (JStr n)"
        "map_of fs ''command'' = Some (JStr c)" "\<not> truthy (map_of fs ''children'')"
        by (auto split: jsval.splits)
      show ?thesis
        unfolding xs Cons MenuItem
        by (simp add: forLoop.simps fs onMenuItemCheck_decoded[OF fs(2,3)] IHrest
            firstViolation_Cons split: option.splits)
    next
      case (Menu n cs)
      with j obtain fs ys where fs: "j = JObj fs" "map_of fs ''name'' = Some (JStr n)"
        "map_of fs ''children'' = Some (JArr ys)" and ys: "list_all2 decodes ys cs"
        by (auto split: jsval.splits option.splits)
      have IHcs: "forLoop ys onMenuCheck onMenuItemCheck s' =
         Inr (case firstViolation cs of None \<Rightarrow> (True, ys, s') | Some msg \<Rightarrow> (False, ys, msg))" for s'
        using less.IH[of cs ys s'] ys Cons Menu by simp
      have upd: "AList.update ''children'' (JArr ys) fs = fs"
        using fs(3) by (rule update_triv)
      show ?thesis
        unfolding xs Cons Menu
        by (simp add: forLoop.simps menuForEach.simps fs onMenuCheck_decoded[OF fs(2)] IHrest IHcs
            upd firstViolation_Cons split: option.splits)
    qed
  qed
qed

lemma getError_decoded:
  "list_all2 decodes xs F \<Longrightarrow> getError (JArr xs) = Inr (firstViolation F)"
  by (simp add: getError_def menuForEach.simps forLoop_check split: option.splits)

lemma violation_nonempty: "violation x = Some msg \<Longrightarrow> msg \<noteq> []"
  by (cases x) (auto split: if_splits)

lemma firstViolation_nonempty: "firstViolation F = Some msg \<Longrightarrow> msg \<noteq> []"
  by (auto simp: firstViolation_def split: list.splits dest: violation_nonempty)

lemma firstViolation_Some_iff:
  "(\<exists>msg. firstViolation F = Some msg) \<longleftrightarrow> (\<exists>x\<in>set (concat (map preorder F)). violation x \<noteq> None)"
proof (cases "filter (\<lambda>x. violation x \<noteq> None) (concat (map preorder F))")
  case Nil
  then show ?thesis by (auto simp: firstViolation_def filter_empty_conv)
next
  case (Cons x rest)
  then have "x \<in> set (filter (\<lambda>x. violation x \<noteq> None) (concat (map preorder F)))" by simp
  then have "x \<in> set (concat (map preorder F))" and "violation x \<noteq> None" by simp_all
  with Cons show ?thesis by (auto simp: firstViolation_def)
qed

lemma decodes_stamped_item:
  assumes "map_of fs ''name'' = Some (JStr n)" and "map_of fs ''command'' = Some (JStr c)"
    and "\<not> truthy (map_of fs ''children'')"
  shows "decodes (JObj (AList.update ''plugin'' (JRef P) fs)) (MenuItem n c (Some (JRef P)))"
  using assms by (simp add: update_conv')

lemma decodes_stamped_menu:
  assumes "map_of fs ''name'' = Some (JStr n)" and "list_all2 decodes ys cs"
  shows "decodes (JObj (AList.update ''children'' (JArr ys) fs)) (Menu n cs)"
  using assms by (simp add: update_conv')

lemma forLoop_link:
  "list_all2 decodes xs F \<Longrightarrow>
     \<exists>ys. forLoop xs onMenuSkip (onMenuItemLink P) () = Inr (True, ys, ())
          \<and> list_all2 decodes ys (map (stampAll P) F)"
proof (induction F arbitrary: xs rule: measure_induct_rule[where f = "size_list size"])
  case (less F)
  show ?case
  proof (cases F)
    case Nil
    with less.prems show ?thesis by (simp add: forLoop.simps)
  next
    case (Cons x F')
    with less.prems obtain j rest where xs: "xs = j # rest" and j: "decodes j x"
      and rest: "list_all2 decodes rest F'" by (auto simp: list_all2_Cons2)
    from less.IH[of F' rest] rest Cons obtain rest' where
      r1: "forLoop rest onMenuSkip (onMenuItemLink P) () = Inr (True, rest', ())"
      and r2: "list_all2 decodes rest' (map (stampAll P) F')" by auto
    show ?thesis
    proof (cases x)
      case (MenuItem n c pl)
      with j obtain fs where fs: "j = JObj fs" "map_of fs ''name'' = Some (JStr n)"
        "map_of fs ''command'' = Some (JStr c)" "\<not> truthy (map_of fs ''children'')"
        by (auto split: jsval.splits)
      have "forLoop xs onMenuSkip (onMenuItemLink P) ()
          = Inr (True, JObj (AList.update ''plugin'' (JRef P) fs) # rest', ())"
        unfolding xs by (simp add: forLoop.simps fs onMenuItemLink_def r1)
      moreover have "list_all2 decodes (JObj (AList.update ''plugin'' (JRef P) fs) # rest')
          (map (stampAll P) F)"
        unfolding Cons MenuItem using decodes_stamped_item[OF fs(2,3,4), of P] r2
        by (simp add: stampAll_def del: decodes.simps)
      ultimately show ?thesis by blast
    next
      case (Menu n cs)
      with j obtain fs ys where fs: "j = JObj fs" "map_of fs ''name'' = Some (JStr n)"
        "map_of fs ''children'' = Some (JArr ys)" and ys: "list_all2 decodes ys cs"
        by (auto split: jsval.splits option.splits)
      from less.IH[of cs ys] ys Cons Menu obtain ys' where
        c1: "forLoop ys onMenuSkip (onMenuItemLink P) () = Inr (True, ys', ())"
        and c2: "list_all2 decodes ys' (map (stampAll P) cs)" by auto
      have "forLoop xs onMenuSkip (onMenuItemLink P) ()
          = Inr (True, JObj (AList.update ''children'' (JArr ys') fs) # rest', ())"
        unfolding xs by (simp add: forLoop.simps menuForEach.simps fs onMenuSkip_def c1 r1)
      moreover have "list_all2 decodes (JObj (AList.update ''children'' (JArr ys') fs) # rest')
          (map (stampAll P) F)"
        unfolding Cons Menu using decodes_stamped_menu[OF fs(2) c2] r2
        by (simp add: stampAll_def del: decodes.simps)
      ultimately show ?thesis by blast
    qed
  qed
qed

lemma plugins_stampAll: "pl \<in> set (plugins (stampAll P x)) \<Longrightarrow> pl = Some (JRef P)"
  by (induction x) (auto simp: stampAll_def)

section \<open>Unregistering\<close>

text \<open>
  C10. For every node and every state of the manager, \<open>unregister\<close> returns the manager
  as it was: no node of the forest is removed, moved or changed.
\<close>

theorem unregister_unchanged: "unregister this menu = this"
  by (simp add: unregister_def unregisterMenu_def)

text \<open>
  C1. The round trip \<open>register(F); unregister(F)\<close> is to give back the forest as it was
  before. On the code it does not: registering File > New into the empty manager and
  unregistering it again leaves File > New in place.
\<close>

theorem register_unregister_keeps_menu:
  "menus (unregister
      (fst (register newMenuManager (Menu ''File'' [MenuItem ''New'' ''file.new'' ''P1''])))
      (Menu ''File'' [MenuItem ''New'' ''file.new'' ''P1'']))
   = [Menu ''File'' [MenuItem ''New'' ''file.new'' ''P1'']]
   \<and> menus (newMenuManager :: string MenuManager) = []"
  by (simp add: unregister_def unregisterMenu_def register_def newMenuManager_def
      registerMenuItem_def)

section \<open>A MenuItem next to a Menu of the same name\<close>

text \<open>
  C2. A MenuItem is to be kept when the sibling list holds a Menu of its name and no
  MenuItem of its name. On the code it is dropped: the scan of \<open>_registerMenuItem\<close>
  tests the variant of the incoming item, which is never a Menu, so any sibling of
  that name is a conflict. Here the list holds the single Menu N, and the item N is
  discarded with the console message; the same happens when File, holding the Menu N
  and then the item N, is registered into a new manager.
\<close>

theorem registerMenuItem_menu_of_same_name:
  "registerMenuItem [Menu ''N'' []] (MenuItem ''N'' ''cmd'' ''P1'')
   = ([Menu ''N'' []], [''Menu item already registered''])
   \<and> register newMenuManager (Menu ''File'' [Menu ''N'' [], MenuItem ''N'' ''cmd'' ''P1''])
   = (\<lparr>menus = [Menu ''File'' [Menu ''N'' []]]\<rparr>, [''Menu item already registered''], None)"
  by (simp add: registerMenuItem_def register_def newMenuManager_def)

section \<open>Merging a Menu into a sibling list\<close>

text \<open>
  C4. A Menu \<open>n\<close> with children \<open>cs\<close> is merged into a sibling list as follows. If the
  list has a Menu named \<open>n\<close>, and \<open>i\<close> is the position of the first one from the left,
  the list keeps its length and every other element: the element at \<open>i\<close> is that Menu
  with each child of \<open>cs\<close> merged, in order, into its children (a Menu child by the same
  procedure, a MenuItem child by the item rule). If the list has no Menu named \<open>n\<close>, a
  new Menu \<open>n\<close> is appended at the end, its children being \<open>cs\<close> merged into the empty
  list. Registering File > New for plugin P1 and then File > Open for plugin P2 into a
  new manager gives the single Menu File with the items New and Open, in that order.
\<close>

theorem registerMenu_found_or_appended:
  "(i < length existing \<and> existing ! i = Menu n kids
      \<and> (\<forall>j<i. \<not> (isMenu (existing ! j) \<and> name (existing ! j) = n))
     \<longrightarrow> fst (registerMenu existing (Menu n cs)) = existing[i := Menu n (foldl mergeNode kids cs)])
   \<and> ((\<forall>x\<in>set existing. \<not> (isMenu x \<and> name x = n))
     \<longrightarrow> fst (registerMenu existing (Menu n cs)) = existing @ [Menu n (foldl mergeNode [] cs)])
   \<and> menus (fst (register (fst (register newMenuManager
         (Menu ''File'' [MenuItem ''New'' ''file.new'' ''P1''])))
         (Menu ''File'' [MenuItem ''Open'' ''file.open'' ''P2''])))
       = [Menu ''File'' [MenuItem ''New'' ''file.new'' ''P1'', MenuItem ''Open'' ''file.open'' ''P2'']]"
proof (intro conjI impI)
  assume a: "i < length existing \<and> existing ! i = Menu n kids
      \<and> (\<forall>j<i. \<not> (isMenu (existing ! j) \<and> name (existing ! j) = n))"
  then have f: "findMenu existing n = Some (take i existing, kids, drop (Suc i) existing)"
    by (simp add: findMenu_index)
  have "take i existing @ Menu n k' # drop (Suc i) existing = existing[i := Menu n k']" for k'
    using a by (simp add: upd_conv_take_nth_drop)
  with f show "fst (registerMenu existing (Menu n cs)) = existing[i := Menu n (foldl mergeNode kids cs)]"
    by (simp add: fst_registerMenu_Menu del: registerMenu.simps)
next
  assume "\<forall>x\<in>set existing. \<not> (isMenu x \<and> name x = n)"
  then have "findMenu existing n = None" by (simp add: findMenu_None_iff)
  then show "fst (registerMenu existing (Menu n cs)) = existing @ [Menu n (foldl mergeNode [] cs)]"
    by (simp add: fst_registerMenu_Menu del: registerMenu.simps)
next
  show "menus (fst (register (fst (register newMenuManager
         (Menu ''File'' [MenuItem ''New'' ''file.new'' ''P1''])))
         (Menu ''File'' [MenuItem ''Open'' ''file.open'' ''P2''])))
       = [Menu ''File'' [MenuItem ''New'' ''file.new'' ''P1'', MenuItem ''Open'' ''file.open'' ''P2'']]"
    by (simp add: register_def newMenuManager_def registerMenuItem_def)
qed

theorem registerMenu_found_or_appended_witness:
  "fst (registerMenu
      [MenuItem ''File'' ''file.show'' ''P0'', Menu ''File'' [MenuItem ''New'' ''file.new'' ''P1''], Menu ''File'' []]
      (Menu ''File'' [MenuItem ''Open'' ''file.open'' ''P2'', Menu ''Recent'' []]))
   = [MenuItem ''File'' ''file.show'' ''P0'',
      Menu ''File'' [MenuItem ''New'' ''file.new'' ''P1'', MenuItem ''Open'' ''file.open'' ''P2'', Menu ''Recent'' []],
      Menu ''File'' []]
   \<and> fst (registerMenu [MenuItem ''File'' ''file.show'' ''P0'']
      (Menu ''File'' [MenuItem ''Open'' ''file.open'' ''P2'']))
   = [MenuItem ''File'' ''file.show'' ''P0'', Menu ''File'' [MenuItem ''Open'' ''file.open'' ''P2'']]"
proof -
  let ?L = "[MenuItem ''File'' ''file.show'' ''P0'', Menu ''File'' [MenuItem ''New'' ''file.new'' ''P1''], Menu ''File'' []]"
  let ?cs = "[MenuItem ''Open'' ''file.open'' ''P2'', Menu ''Recent'' []]"
  have h1: "1 < length ?L \<and> ?L ! 1 = Menu ''File'' [MenuItem ''New'' ''file.new'' ''P1'']
      \<and> (\<forall>j<1. \<not> (isMenu (?L ! j) \<and> name (?L ! j) = ''File''))"
    by simp
  have h2: "\<forall>x\<in>set [MenuItem ''File'' ''file.show'' ''P0'']. \<not> (isMenu x \<and> name x = ''File'')"
    by simp
  have m1: "foldl mergeNode [MenuItem ''New'' ''file.new'' ''P1''] ?cs
      = [MenuItem ''New'' ''file.new'' ''P1'', MenuItem ''Open'' ''file.open'' ''P2'', Menu ''Recent'' []]"
    by (simp add: mergeNode_def registerMenuItem_def)
  have m2: "foldl mergeNode [] [MenuItem ''Open'' ''file.open'' ''P2'']
      = [MenuItem ''Open'' ''file.open'' ''P2'']"
    by (simp add: mergeNode_def registerMenuItem_def)
  from registerMenu_found_or_appended[of 1 ?L "''File''" "[MenuItem ''New'' ''file.new'' ''P1'']" ?cs] h1
  have a: "fst (registerMenu ?L (Menu ''File'' ?cs))
      = ?L[1 := Menu ''File'' (foldl mergeNode [MenuItem ''New'' ''file.new'' ''P1''] ?cs)]"
    by blast
  from registerMenu_found_or_appended[of _ "[MenuItem ''File'' ''file.show'' ''P0'']" "''File''" _ "[MenuItem ''Open'' ''file.open'' ''P2'']"] h2
  have b: "fst (registerMenu [MenuItem ''File'' ''file.show'' ''P0''] (Menu ''File'' [MenuItem ''Open'' ''file.open'' ''P2'']))
      = [MenuItem ''File'' ''file.show'' ''P0''] @ [Menu ''File'' (foldl mergeNode [] [MenuItem ''Open'' ''file.open'' ''P2''])]"
    by blast
  show ?thesis unfolding a b m1 m2 by simp
qed

section \<open>Names are unique in every sibling list\<close>

text \<open>
  C9. In every state reachable from the new manager by calls of \<open>register\<close>, whatever
  the nodes registered, every sibling list of the forest holds at most one Menu of any
  given name and at most one MenuItem of any given name.
\<close>

theorem reachable_unique_names:
  "reachable this \<Longrightarrow>
     uniqueSiblings (menus this)
     \<and> (\<forall>S\<in>set (siblingLists (menus this)). \<forall>n.
          length (filter (\<lambda>x. isMenu x \<and> name x = n) S) \<le> 1
          \<and> length (filter (\<lambda>x. \<not> isMenu x \<and> name x = n) S) \<le> 1)"
proof -
  assume "reachable this"
  then have u: "uniqueSiblings (menus this)" by (rule reachable_uniqueSiblings)
  show ?thesis
  proof (intro conjI ballI allI)
    show "uniqueSiblings (menus this)" by (rule u)
  next
    fix S n assume "S \<in> set (siblingLists (menus this))"
    from uniqueSiblings_siblingLists(1)[OF u this]
    show "length (filter (\<lambda>x. isMenu x \<and> name x = n) S) \<le> 1"
      by (simp add: distinct_at_most_one del: One_nat_def)
  next
    fix S n assume "S \<in> set (siblingLists (menus this))"
    from uniqueSiblings_siblingLists(1)[OF u this]
    show "length (filter (\<lambda>x. \<not> isMenu x \<and> name x = n) S) \<le> 1"
      by (simp add: distinct_at_most_one del: One_nat_def)
  qed
qed

theorem reachable_unique_names_witness:
  "reachable (fst (register (fst (register newMenuManager
       (Menu ''File'' [MenuItem ''New'' ''file.new'' ''P1'', Menu ''Recent'' []])))
       (Menu ''File'' [MenuItem ''New'' ''file.create'' ''P2'', MenuItem ''Recent'' ''file.recent'' ''P2''])))
   \<and> uniqueSiblings (menus (fst (register (fst (register newMenuManager
       (Menu ''File'' [MenuItem ''New'' ''file.new'' ''P1'', Menu ''Recent'' []])))
       (Menu ''File'' [MenuItem ''New'' ''file.create'' ''P2'', MenuItem ''Recent'' ''file.recent'' ''P2'']))))"
proof -
  have r: "reachable (fst (register (fst (register newMenuManager
       (Menu ''File'' [MenuItem ''New'' ''file.new'' ''P1'', Menu ''Recent'' []])))
       (Menu ''File'' [MenuItem ''New'' ''file.create'' ''P2'', MenuItem ''Recent'' ''file.recent'' ''P2''])))"
    by (rule reachable.call, rule reachable.call, rule reachable.start)
  from reachable_unique_names[OF r] have "uniqueSiblings (menus (fst (register (fst (register newMenuManager
       (Menu ''File'' [MenuItem ''New'' ''file.new'' ''P1'', Menu ''Recent'' []])))
       (Menu ''File'' [MenuItem ''New'' ''file.create'' ''P2'', MenuItem ''Recent'' ''file.recent'' ''P2'']))))"
    by (rule conjunct1)
  with r show ?thesis by (rule conjI)
qed

section \<open>Two forests with no name in common\<close>

text \<open>
  C8, as stated, asks that registering A then B gives the same forest as registering B
  then A. The order of the top-level Menus differs: File then Edit one way, Edit then
  File the other.
\<close>

theorem register_order_counterexample:
  "menus (fst (registerForest (fst (registerForest newMenuManager
       [Menu ''File'' [MenuItem ''New'' ''file.new'' ''P1'']]))
       [Menu ''Edit'' [MenuItem ''Undo'' ''edit.undo'' ''P2'']]))
   \<noteq> menus (fst (registerForest (fst (registerForest newMenuManager
       [Menu ''Edit'' [MenuItem ''Undo'' ''edit.undo'' ''P2'']]))
       [Menu ''File'' [MenuItem ''New'' ''file.new'' ''P1'']]))"
  by (simp add: register_def newMenuManager_def registerMenuItem_def)

text \<open>
  C8, amended. Let A and B be forests of Menus that have no name in common at any
  level. Registered into the new manager, A then B gives the Menus that A alone gives
  followed by those that B alone gives, and B then A gives them the other way round;
  the two results hold the same top-level Menus, each with the same subtree, in the
  order of arrival.
\<close>

theorem register_disjoint_forests:
  assumes "list_all isMenu A" and "list_all isMenu B"
    and "set (forestNames A) \<inter> set (forestNames B) = {}"
  shows "menus (fst (registerForest (fst (registerForest newMenuManager A)) B))
           = menus (fst (registerForest newMenuManager A)) @ menus (fst (registerForest newMenuManager B))
       \<and> menus (fst (registerForest (fst (registerForest newMenuManager B)) A))
           = menus (fst (registerForest newMenuManager B)) @ menus (fst (registerForest newMenuManager A))
       \<and> mset (menus (fst (registerForest (fst (registerForest newMenuManager A)) B)))
           = mset (menus (fst (registerForest (fst (registerForest newMenuManager B)) A)))"
proof -
  from assms(3) have "set (forestNames B) \<inter> set (forestNames A) = {}" by auto
  from register_disjoint_append[OF assms] register_disjoint_append[OF assms(2,1) this]
  show ?thesis by simp
qed

theorem register_disjoint_forests_witness:
  "list_all isMenu [Menu ''File'' [MenuItem ''New'' ''file.new'' ''P1'']]
   \<and> list_all isMenu [Menu ''Edit'' [MenuItem ''Undo'' ''edit.undo'' ''P2'']]
   \<and> set (forestNames [Menu ''File'' [MenuItem ''New'' ''file.new'' ''P1'']])
       \<inter> set (forestNames [Menu ''Edit'' [MenuItem ''Undo'' ''edit.undo'' ''P2'']]) = {}
   \<and> menus (fst (registerForest (fst (registerForest newMenuManager
         [Menu ''File'' [MenuItem ''New'' ''file.new'' ''P1'']]))
         [Menu ''Edit'' [MenuItem ''Undo'' ''edit.undo'' ''P2'']]))
       = [Menu ''File'' [MenuItem ''New'' ''file.new'' ''P1''],
          Menu ''Edit'' [MenuItem ''Undo'' ''edit.undo'' ''P2'']]
   \<and> menus (fst (registerForest (fst (registerForest newMenuManager
         [Menu ''Edit'' [MenuItem ''Undo'' ''edit.undo'' ''P2'']]))
         [Menu ''File'' [MenuItem ''New'' ''file.new'' ''P1'']]))
       = [Menu ''Edit'' [MenuItem ''Undo'' ''edit.undo'' ''P2''],
          Menu ''File'' [MenuItem ''New'' ''file.new'' ''P1'']]"
proof -
  let ?A = "[Menu ''File'' [MenuItem ''New'' ''file.new'' ''P1'']]"
  let ?B = "[Menu ''Edit'' [MenuItem ''Undo'' ''edit.undo'' ''P2'']]"
  have a: "list_all isMenu ?A" by simp
  have b: "list_all isMenu ?B" by simp
  have d: "set (forestNames ?A) \<inter> set (forestNames ?B) = {}"
    by (simp add: forestNames_def)
  have ra: "menus (fst (registerForest newMenuManager ?A)) = ?A"
    by (simp add: register_def newMenuManager_def registerMenuItem_def)
  have rb: "menus (fst (registerForest newMenuManager ?B)) = ?B"
    by (simp add: register_def newMenuManager_def registerMenuItem_def)
  from register_disjoint_forests[OF a b d] a b d show ?thesis
    unfolding ra rb by simp
qed

section \<open>Registering the same forest twice\<close>

text \<open>
  C3, as stated, covers every forest the parser accepts, and the parser accepts a
  MenuItem at the top level. \<open>register\<close> is typed for a Menu: on a MenuItem it throws,
  the second time as the first.
\<close>

theorem register_menuitem_throws:
  "parse (Some (JArr [JObj [(''name'', JStr ''New''), (''command'', JStr ''file.new'')]])) ''P1''
     = Inr (JArr [JObj [(''name'', JStr ''New''), (''command'', JStr ''file.new''),
                        (''plugin'', JRef ''P1'')]])
   \<and> decodes (JObj [(''name'', JStr ''New''), (''command'', JStr ''file.new''), (''plugin'', JRef ''P1'')])
        (MenuItem ''New'' ''file.new'' (Some (JRef ''P1'')))
   \<and> snd (snd (registerForest
        (fst (registerForest newMenuManager [MenuItem ''New'' ''file.new'' (Some (JRef ''P1''))]))
        [MenuItem ''New'' ''file.new'' (Some (JRef ''P1''))])) = Some TypeError"
  by (simp add: parse_def getError_def menuForEach.simps forLoop.simps onMenuCheck_def
      onMenuItemCheck_def onMenuSkip_def onMenuItemLink_def isEmpty.simps isSpace_def
      register_def newMenuManager_def)

text \<open>
  C3, amended. For a Menu, and for a forest whose top-level nodes are all Menus,
  and for every state of the manager: the second registration returns the manager
  that the first one left, throws nothing, and writes the conflict message once for
  each MenuItem of the forest, so every item of the second call is rejected and none
  is added.
\<close>

theorem register_twice:
  "(isMenu m \<longrightarrow>
      register (fst (register this m)) m
        = (fst (register this m),
           replicate (countItems m) ''Menu item already registered'', None))
   \<and> (list_all isMenu F \<longrightarrow>
      registerForest (fst (registerForest this F)) F
        = (fst (registerForest this F),
           replicate (sum_list (map countItems F)) ''Menu item already registered'', None))"
proof (intro conjI impI)
  assume m: "isMenu m"
  have "covers (mergeNode (menus this) m) m" by (rule covers_after)
  with m have c: "covers (fst (registerMenu (menus this) m)) m" by (simp add: mergeNode_def)
  from covers_noop(1)[OF m c]
  show "register (fst (register this m)) m
        = (fst (register this m), replicate (countItems m) ''Menu item already registered'', None)"
    by (simp add: register_def case_prod_unfold)
next
  assume "list_all isMenu F"
  then show "registerForest (fst (registerForest this F)) F
        = (fst (registerForest this F),
           replicate (sum_list (map countItems F)) ''Menu item already registered'', None)"
    by (rule registerForest_twice)
qed

theorem register_twice_witness:
  "isMenu (Menu ''File'' [MenuItem ''New'' ''file.new'' ''P1'', Menu ''Recent'' [MenuItem ''Clear'' ''file.clear'' ''P1'']])
   \<and> register (fst (register \<lparr>menus = [Menu ''Edit'' []]\<rparr>
        (Menu ''File'' [MenuItem ''New'' ''file.new'' ''P1'', Menu ''Recent'' [MenuItem ''Clear'' ''file.clear'' ''P1'']])))
        (Menu ''File'' [MenuItem ''New'' ''file.new'' ''P1'', Menu ''Recent'' [MenuItem ''Clear'' ''file.clear'' ''P1'']])
     = (\<lparr>menus = [Menu ''Edit'' [],
          Menu ''File'' [MenuItem ''New'' ''file.new'' ''P1'', Menu ''Recent'' [MenuItem ''Clear'' ''file.clear'' ''P1'']]]\<rparr>,
        [''Menu item already registered'', ''Menu item already registered''], None)"
proof -
  let ?m = "Menu ''File'' [MenuItem ''New'' ''file.new'' ''P1'', Menu ''Recent'' [MenuItem ''Clear'' ''file.clear'' ''P1'']]"
  let ?mm = "\<lparr>menus = [Menu ''Edit'' []]\<rparr>"
  have m: "isMenu ?m" by simp
  have r: "fst (register ?mm ?m)
      = \<lparr>menus = [Menu ''Edit'' [],
          Menu ''File'' [MenuItem ''New'' ''file.new'' ''P1'', Menu ''Recent'' [MenuItem ''Clear'' ''file.clear'' ''P1'']]]\<rparr>"
    by (simp add: register_def registerMenuItem_def)
  have c: "replicate (countItems ?m) ''Menu item already registered''
      = [''Menu item already registered'', ''Menu item already registered'']"
    by (simp add: numeral_2_eq_2)
  from register_twice[of ?m ?mm] m
  have "register (fst (register ?mm ?m)) ?m
        = (fst (register ?mm ?m), replicate (countItems ?m) ''Menu item already registered'', None)"
    by blast
  then show ?thesis unfolding r c using m by simp
qed

section \<open>What parse throws\<close>

text \<open>
  C5. A text that does not deserialize into a sequence of Menus and MenuItems is to
  fail with the format error, and \<open>parse\<close> is to fail in no other way than with the
  format error or a schema error. On the code only a text that is not JSON gives the
  format error. A single Menu object instead of a sequence, a sequence holding \<open>null\<close>,
  and a MenuItem whose name is a number all end in a \<open>TypeError\<close> of the language,
  and the text \<^verbatim>\<open>""\<close> is returned as a forest.
\<close>

theorem parse_shape_not_checked:
  "parse (Some (JObj [(''name'', JStr ''File''), (''children'', JArr [])])) ''P1'' = Inl TypeError
   \<and> parse (Some (JArr [JNull])) ''P1'' = Inl TypeError
   \<and> parse (Some (JArr [JObj [(''name'', JNum 7), (''command'', JStr ''c'')]])) ''P1'' = Inl TypeError
   \<and> parse (Some (JStr '''')) ''P1'' = Inr (JStr '''')
   \<and> parse None ''P1'' = Inl (Error ''JSON in invalid format'')"
  by (simp add: parse_def getError_def menuForEach.simps forLoop.simps onMenuCheck_def
      onMenuItemCheck_def onMenuSkip_def onMenuItemLink_def isEmpty.simps)

section \<open>The first violation is reported\<close>

text \<open>
  C6. Let the text deserialize into a forest \<open>F\<close> of Menus and MenuItems in which some
  node has a blank name, or some MenuItem a blank command. Then \<open>parse\<close> throws
  \<^verbatim>\<open>Invalid menus: "..."\<close> with the message of the rule violated by the first such
  node in depth-first, left-to-right order.
\<close>

theorem parse_reports_first_violation:
  assumes "list_all2 decodes xs F"
    and "\<exists>x\<in>set (concat (map preorder F)). violation x \<noteq> None"
  shows "\<exists>msg. firstViolation F = Some msg
           \<and> parse (Some (JArr xs)) P = Inl (Error (''Invalid menus: \"'' @ msg @ ''\"''))"
proof -
  from assms(2) obtain msg where m: "firstViolation F = Some msg"
    using firstViolation_Some_iff[of F] by blast
  then have "msg \<noteq> []" by (rule firstViolation_nonempty)
  with m getError_decoded[OF assms(1)] show ?thesis by (simp add: parse_def)
qed

theorem parse_reports_first_violation_witness:
  "list_all2 decodes
     [JObj [(''name'', JStr ''File''),
            (''children'', JArr [JObj [(''name'', JStr ''New''), (''command'', JStr '' '')],
                                 JObj [(''name'', JStr ''''), (''children'', JArr [])]])]
      :: string jsval]
     [Menu ''File'' [MenuItem ''New'' '' '' None, Menu '''' []]]
   \<and> violation (MenuItem ''New'' '' '' (None :: string jsval option)) = Some ''Menu items must have a command''
   \<and> parse (Some (JArr
     [JObj [(''name'', JStr ''File''),
            (''children'', JArr [JObj [(''name'', JStr ''New''), (''command'', JStr '' '')],
                                 JObj [(''name'', JStr ''''), (''children'', JArr [])]])]])) ''P1''
     = Inl (Error ''Invalid menus: \"Menu items must have a command\"'')"
proof -
  let ?xs = "[JObj [(''name'', JStr ''File''),
            (''children'', JArr [JObj [(''name'', JStr ''New''), (''command'', JStr '' '')],
                                 JObj [(''name'', JStr ''''), (''children'', JArr [])]])] :: string jsval]"
  let ?F = "[Menu ''File'' [MenuItem ''New'' '' '' None, Menu '''' []] :: string jsval option node]"
  have d: "list_all2 decodes ?xs ?F" by simp
  have v: "violation (MenuItem ''New'' '' '' (None :: string jsval option)) = Some ''Menu items must have a command''"
    by (simp add: blank_def isSpace_def)
  then have e: "\<exists>x\<in>set (concat (map preorder ?F)). violation x \<noteq> None"
    by (simp del: violation.simps)
  have f: "firstViolation ?F = Some ''Menu items must have a command''"
    by (simp add: firstViolation_def blank_def isSpace_def)
  from parse_reports_first_violation[OF d e, of "''P1''"] f
  have "parse (Some (JArr ?xs)) ''P1'' = Inl (Error (''Invalid menus: \"'' @ ''Menu items must have a command'' @ ''\"''))"
    by auto
  with d v show ?thesis by simp
qed

section \<open>Every MenuItem is stamped\<close>

text \<open>
  C7. Let the text deserialize into a forest \<open>F\<close> of Menus and MenuItems none of
  which violates the schema. Then \<open>parse\<close> returns, for every plugin identity \<open>P\<close>, the
  same forest with the plugin of every MenuItem, at every depth, set to \<open>P\<close>; the
  second traversal does not throw.
\<close>

theorem parse_stamps_every_item:
  assumes "list_all2 decodes xs F"
    and "\<forall>x\<in>set (concat (map preorder F)). violation x = None"
  shows "\<exists>ys. parse (Some (JArr xs)) P = Inr (JArr ys)
           \<and> list_all2 decodes ys (map (stampAll P) F)
           \<and> (\<forall>pl\<in>set (concat (map plugins (map (stampAll P) F))). pl = Some (JRef P))"
proof -
  from assms(2) have m: "firstViolation F = None"
    using firstViolation_Some_iff[of F] by (cases "firstViolation F") auto
  from forLoop_link[OF assms(1), of P] obtain ys where
    y1: "forLoop xs onMenuSkip (onMenuItemLink P) () = Inr (True, ys, ())"
    and y2: "list_all2 decodes ys (map (stampAll P) F)" by blast
  have "parse (Some (JArr xs)) P = Inr (JArr ys)"
    using m getError_decoded[OF assms(1)] y1 by (simp add: parse_def menuForEach.simps)
  moreover have "\<forall>pl\<in>set (concat (map plugins (map (stampAll P) F))). pl = Some (JRef P)"
    using plugins_stampAll by fastforce
  ultimately show ?thesis using y2 by blast
qed

theorem parse_stamps_every_item_witness:
  "list_all2 decodes
     [JObj [(''name'', JStr ''File''),
            (''children'', JArr [JObj [(''name'', JStr ''New''), (''command'', JStr ''file.new'')]])]
      :: string jsval]
     [Menu ''File'' [MenuItem ''New'' ''file.new'' None]]
   \<and> (\<exists>ys. parse (Some (JArr
       [JObj [(''name'', JStr ''File''),
            (''children'', JArr [JObj [(''name'', JStr ''New''), (''command'', JStr ''file.new'')]])]])) ''P1''
         = Inr (JArr ys)
       \<and> list_all2 decodes ys [Menu ''File'' [MenuItem ''New'' ''file.new'' (Some (JRef ''P1''))]])"
proof -
  let ?xs = "[JObj [(''name'', JStr ''File''),
            (''children'', JArr [JObj [(''name'', JStr ''New''), (''command'', JStr ''file.new'')]])] :: string jsval]"
  let ?F = "[Menu ''File'' [MenuItem ''New'' ''file.new'' None] :: string jsval option node]"
  have d: "list_all2 decodes ?xs ?F" by simp
  have v: "\<forall>x\<in>set (concat (map preorder ?F)). violation x = None"
    by (simp add: blank_def isSpace_def)
  have s: "map (stampAll ''P1'') ?F = [Menu ''File'' [MenuItem ''New'' ''file.new'' (Some (JRef ''P1''))]]"
    by (simp add: stampAll_def)
  from parse_stamps_every_item[OF d v, of "''P1''"] obtain ys where
    p: "parse (Some (JArr ?xs)) ''P1'' = Inr (JArr ys)"
    and q: "list_all2 decodes ys (map (stampAll ''P1'') ?F)" by blast
  from p q[unfolded s] have "\<exists>ys. parse (Some (JArr ?xs)) ''P1'' = Inr (JArr ys)
       \<and> list_all2 decodes ys [Menu ''File'' [MenuItem ''New'' ''file.new'' (Some (JRef ''P1''))]]"
    by (intro exI[of _ ys] conjI)
  with d show ?thesis by (rule conjI)
qed

end
